theory Spec2Isabelle
  imports Main
begin

section \<open>The polling client \<^verbatim>\<open>PingRank.py\<close>\<close>

text \<open>
  The program is one control loop over library calls:
  \<^verbatim>\<open>
  urls = [".../getRank/olofmeister", ".../getRank/f0rest"]
  while True:
      for url in urls:
          response = requests.get(url)
          if response.status_code == 200:
              print(response.json())
          else:
              print(f"Failed to retrieve data from {url}. Status code: {response.status_code}")
      time.sleep(240)
  \<close>
  Its behaviour is the sequence of library calls it makes, so the model computes that
  sequence (the trace) from what the libraries answer. The answers are parameters: the
  network gives the outcome of every \<^verbatim>\<open>requests.get\<close>, and the decoder is what
  \<^verbatim>\<open>response.json()\<close> gives for a response. \<^verbatim>\<open>print\<close> and \<^verbatim>\<open>time.sleep\<close>
  are taken to return normally.
\<close>

subsection \<open>Data model\<close>

text \<open>The response object, as far as a run can tell two responses apart: the status
  code that the program reads, and the body and the headers that only
  \<^verbatim>\<open>response.json()\<close> reads.\<close>

record response =
  status_code :: int
  content :: string
  headers :: "(string \<times> string) list"

text \<open>The two exceptions that the library calls of the loop can raise: \<^verbatim>\<open>requests.get\<close>
  raises a \<^verbatim>\<open>RequestException\<close> (connection refused, timeout, TLS failure), and
  \<^verbatim>\<open>response.json()\<close> raises a \<^verbatim>\<open>JSONDecodeError\<close> on a malformed body.\<close>

datatype exn = RequestException | JSONDecodeError

text \<open>The outcome of the k-th \<^verbatim>\<open>requests.get\<close> of the run, for the URL it is sent to:
  \<open>None\<close> when the call raises, the response otherwise.\<close>

type_synonym network = "nat \<Rightarrow> string \<Rightarrow> response option"

text \<open>What \<^verbatim>\<open>response.json()\<close> gives for a response: \<open>None\<close> when it raises. The
  call is a method of the response object: it reads the body and the encoding that the
  headers declare, so the decoder is a function of the whole response. The decoded value is
  opaque to the program, hence a type parameter.\<close>

type_synonym 'j decoder = "response \<Rightarrow> 'j option"

text \<open>The argument of a \<^verbatim>\<open>print\<close> call: the decoded value (line 13) or the
  formatted string (line 15).\<close>

datatype 'j line = Decoded 'j | Message string

text \<open>The library calls, in the order the program makes them.\<close>

datatype 'j event =
    Requests_get string
  | Response_json
  | Print "'j line"
  | Time_sleep nat

text \<open>How control leaves a piece of the program: it goes on, or an exception that
  nothing catches is on its way out of the process.\<close>

datatype status = Running | Aborted exn

text \<open>JSON values, for the bodies the specification names.\<close>

datatype json =
    Null
  | Boolean bool
  | Number int
  | String string
  | Array "json list"
  | Object "(string \<times> json) list"

subsection \<open>The program\<close>

definition urls :: "string list" where
  "urls = [''https://f0rest-rank-api.glitch.me/getRank/olofmeister'',
           ''https://f0rest-rank-api.glitch.me/getRank/f0rest'']"

text \<open>Python's \<^verbatim>\<open>str\<close> of an integer, which the f-string applies to the status code.\<close>

fun str_nat :: "nat \<Rightarrow> string" where
  "str_nat n =
     (if n < 10 then [''0123456789'' ! n]
      else str_nat (n div 10) @ [''0123456789'' ! (n mod 10)])"

declare str_nat.simps [simp del]

definition str_int :: "int \<Rightarrow> string" where
  "str_int i = (if i < 0 then CHR ''-'' # str_nat (nat (- i)) else str_nat (nat i))"

text \<open>The f-string of line 15.\<close>

definition failure_message :: "string \<Rightarrow> int \<Rightarrow> string" where
  "failure_message url code =
     ''Failed to retrieve data from '' @ url @ ''. Status code: '' @ str_int code"

text \<open>Lines 11 to 15, the body of the \<^verbatim>\<open>for\<close> loop for one URL, given the outcome of
  its request.\<close>

fun loop_body :: "'j decoder \<Rightarrow> string \<Rightarrow> response option \<Rightarrow> 'j event list \<times> status" where
  "loop_body dec url None = ([Requests_get url], Aborted RequestException)"
| "loop_body dec url (Some r) =
     (if status_code r = 200 then
        (case dec r of
           None \<Rightarrow> ([Requests_get url, Response_json], Aborted JSONDecodeError)
         | Some v \<Rightarrow> ([Requests_get url, Response_json, Print (Decoded v)], Running))
      else
        ([Requests_get url, Print (Message (failure_message url (status_code r)))], Running))"

text \<open>Line 10, the \<^verbatim>\<open>for\<close> loop over the URLs still to be visited; \<open>k\<close> counts the
  requests made so far in the run.\<close>

fun for_loop :: "'j decoder \<Rightarrow> network \<Rightarrow> nat \<Rightarrow> string list \<Rightarrow> 'j event list \<times> status" where
  "for_loop dec net k [] = ([], Running)"
| "for_loop dec net k (url # rest) =
     (case loop_body dec url (net k url) of
        (t, Aborted e) \<Rightarrow> (t, Aborted e)
      | (t, Running) \<Rightarrow>
          (case for_loop dec net (Suc k) rest of (t', s) \<Rightarrow> (t @ t', s)))"

text \<open>Line 9, \<^verbatim>\<open>while True\<close>, observed for \<open>n\<close> iterations: the calls made in them, and
  \<open>Running\<close> when all \<open>n\<close> iterations were completed. The loop has no \<^verbatim>\<open>break\<close>, so
  there is no third way out.\<close>

fun while_true :: "'j decoder \<Rightarrow> network \<Rightarrow> nat \<Rightarrow> nat \<Rightarrow> 'j event list \<times> status" where
  "while_true dec net 0 k = ([], Running)"
| "while_true dec net (Suc n) k =
     (case for_loop dec net k urls of
        (t, Aborted e) \<Rightarrow> (t, Aborted e)
      | (t, Running) \<Rightarrow>
          (case while_true dec net n (k + length urls) of
             (t', s) \<Rightarrow> (t @ Time_sleep 240 # t', s)))"

definition program :: "'j decoder \<Rightarrow> network \<Rightarrow> nat \<Rightarrow> 'j event list \<times> status" where
  "program dec net n = while_true dec net n 0"

subsection \<open>Reading a trace\<close>

fun requests_of :: "'j event list \<Rightarrow> string list" where
  "requests_of [] = []"
| "requests_of (Requests_get u # t) = u # requests_of t"
| "requests_of (_ # t) = requests_of t"

fun output_lines :: "'j event list \<Rightarrow> 'j line list" where
  "output_lines [] = []"
| "output_lines (Print l # t) = l # output_lines t"
| "output_lines (_ # t) = output_lines t"

fun sleeps_of :: "'j event list \<Rightarrow> nat list" where
  "sleeps_of [] = []"
| "sleeps_of (Time_sleep d # t) = d # sleeps_of t"
| "sleeps_of (_ # t) = sleeps_of t"

fun json_calls :: "'j event list \<Rightarrow> nat" where
  "json_calls [] = 0"
| "json_calls (Response_json # t) = Suc (json_calls t)"
| "json_calls (_ # t) = json_calls t"

text \<open>One request and one output line per URL, in the order of the list, the line of a
  URL before the request of the next one.\<close>

fun one_line_per_url :: "string list \<Rightarrow> 'j event list \<Rightarrow> bool" where
  "one_line_per_url [] t = (t = [])"
| "one_line_per_url (u # us) (Requests_get u' # Print l # t) =
     (u' = u \<and> one_line_per_url us t)"
| "one_line_per_url (u # us) (Requests_get u' # Response_json # Print l # t) =
     (u' = u \<and> one_line_per_url us t)"
| "one_line_per_url (u # us) t = False"

text \<open>Two outcomes of a request that the program does not tell apart: both raise, or both
  are responses with the same status code and, when that code is 200, the same result of
  \<^verbatim>\<open>response.json()\<close>.\<close>

fun same_outcome :: "'j decoder \<Rightarrow> response option \<Rightarrow> response option \<Rightarrow> bool" where
  "same_outcome dec None None = True"
| "same_outcome dec (Some r) (Some r') =
     (status_code r = status_code r' \<and> (status_code r = 200 \<longrightarrow> dec r = dec r'))"
| "same_outcome dec _ _ = False"

text \<open>Two outcomes of a request with the same status code and the same body.\<close>

fun same_status_and_body :: "response option \<Rightarrow> response option \<Rightarrow> bool" where
  "same_status_and_body None None = True"
| "same_status_and_body (Some r) (Some r') =
     (status_code r = status_code r' \<and> content r = content r')"
| "same_status_and_body _ _ = False"

subsection \<open>Reading a decimal numeral\<close>

text \<open>What it means for a string to be an integer written in decimal the way Python's
  \<^verbatim>\<open>str\<close> writes it: an optional minus sign, then digits with no leading zero (and no
  \<^verbatim>\<open>-0\<close>). \<open>decimal_value\<close> is the integer so written, and \<open>None\<close> for every other
  string, so at most one string is the numeral of a given integer. It is used to state what
  the status code in the failure line is.\<close>

definition is_digit :: "char \<Rightarrow> bool" where
  "is_digit c = (c \<in> set ''0123456789'')"

definition digit_value :: "char \<Rightarrow> nat" where
  "digit_value c = of_char c - 48"

definition decimal_nat :: "string \<Rightarrow> nat option" where
  "decimal_nat s =
     (if s \<noteq> [] \<and> list_all is_digit s \<and> (s = ''0'' \<or> hd s \<noteq> CHR ''0'')
      then Some (foldl (\<lambda>a c. 10 * a + digit_value c) 0 s)
      else None)"

definition decimal_value :: "string \<Rightarrow> int option" where
  "decimal_value s =
     (if s \<noteq> [] \<and> hd s = CHR ''-'' then
        (case decimal_nat (tl s) of
           None \<Rightarrow> None
         | Some n \<Rightarrow> if n = 0 then None else Some (- int n))
      else map_option int (decimal_nat s))"

subsection \<open>The loop as a state machine\<close>






subsection \<open>Concrete environments\<close>

text \<open>The bodies and values that the specification names, a decoder that knows them,
  and networks for its scenarios.\<close>

definition rank_body :: string where
  \<open>rank_body = ''{"rank": 5}''\<close>

definition rank_value :: json where
  "rank_value = Object [(''rank'', Number 5)]"

definition x_body :: string where
  \<open>x_body = ''{"x":1}''\<close>

definition x_value :: json where
  "x_value = Object [(''x'', Number 1)]"

definition demo_decoder :: "json decoder" where
  "demo_decoder r =
     (if content r = rank_body then Some rank_value
      else if content r = x_body then Some x_value
      else None)"

definition ok_response :: "string \<Rightarrow> response" where
  "ok_response b = \<lparr>status_code = 200, content = b, headers = []\<rparr>"

definition error_response :: "int \<Rightarrow> response" where
  "error_response c = \<lparr>status_code = c, content = [], headers = []\<rparr>"

text \<open>The scenario of the specification: the first URL answers 200 with \<^verbatim>\<open>{"x":1}\<close>,
  the second answers 500, in every cycle.\<close>

definition scenario_network :: network where
  "scenario_network k u =
     (if even k then Some (ok_response x_body) else Some (error_response 500))"

text \<open>Every request fails in transport.\<close>

definition offline_network :: network where
  "offline_network k u = None"

text \<open>Every request answers 404.\<close>

definition missing_network :: network where
  "missing_network k u = Some (error_response 404)"

text \<open>The first URL answers 500, the second answers 200 with a body that is not JSON.\<close>

definition garbled_network :: network where
  "garbled_network k u =
     (if even k then Some (error_response 500) else Some (ok_response ''<html>''))"

text \<open>Two 200 responses with the same body, \<^verbatim>\<open>{"rank": 5}\<close> in ASCII, which differ in the
  encoding that the \<^verbatim>\<open>Content-Type\<close> header declares.\<close>

definition json_response :: response where
  "json_response =
     \<lparr>status_code = 200, content = rank_body,
      headers = [(''Content-Type'', ''application/json'')]\<rparr>"

definition utf16_response :: response where
  "utf16_response =
     \<lparr>status_code = 200, content = rank_body,
      headers = [(''Content-Type'', ''application/json; charset=utf-16'')]\<rparr>"

text \<open>A decoder that reads the declared encoding, as \<^verbatim>\<open>response.json()\<close> of the
  requests library does: it decodes the body with the encoding of the response, which comes
  from the headers. The ASCII bytes of \<^verbatim>\<open>{"rank": 5}\<close> read as UTF-16 are not JSON text,
  and the call raises.\<close>

definition charset_decoder :: "json decoder" where
  "charset_decoder r =
     (if (''Content-Type'', ''application/json; charset=utf-16'') \<in> set (headers r) then None
      else demo_decoder r)"

text \<open>Networks that answer every request with the one response and with the other.\<close>

definition json_network :: network where
  "json_network k u = Some json_response"

definition utf16_network :: network where
  "utf16_network k u = Some utf16_response"

text \<open>The answers of the scenario with a header added, and another body for the 500
  response.\<close>

definition dated_network :: network where
  "dated_network k u =
     (if even k then Some ((ok_response x_body)\<lparr>headers := [(''Date'', ''today'')]\<rparr>)
      else Some \<lparr>status_code = 500, content = ''Internal Server Error'',
        headers = [(''Date'', ''today'')]\<rparr>)"

section \<open>Properties\<close>

subsection \<open>Traces\<close>

lemma requests_of_append: "requests_of (s @ t) = requests_of s @ requests_of t"
  by (induction s rule: requests_of.induct) simp_all

lemma output_lines_append: "output_lines (s @ t) = output_lines s @ output_lines t"
  by (induction s rule: output_lines.induct) simp_all

lemma sleeps_of_append: "sleeps_of (s @ t) = sleeps_of s @ sleeps_of t"
  by (induction s rule: sleeps_of.induct) simp_all

lemma json_calls_append: "json_calls (s @ t) = json_calls s + json_calls t"
  by (induction s rule: json_calls.induct) simp_all

subsection \<open>The status code in decimal\<close>

lemma below_ten:
  "(d::nat) < 10 \<Longrightarrow> d = 0 \<or> d = 1 \<or> d = 2 \<or> d = 3 \<or> d = 4 \<or> d = 5 \<or> d = 6 \<or> d = 7 \<or> d = 8 \<or> d = 9"
  by arith

lemma digit_char:
  assumes "d < 10"
  shows "is_digit (''0123456789'' ! d)" and "digit_value (''0123456789'' ! d) = d"
    and "(''0123456789'' ! d = CHR ''0'') = (d = 0)" and "''0123456789'' ! d \<noteq> CHR ''-''"
  using below_ten [OF assms] by (auto simp: is_digit_def digit_value_def)

lemma str_nat_nonempty: "str_nat n \<noteq> []"
  by (subst str_nat.simps) simp

lemma str_nat_digits: "list_all is_digit (str_nat n)"
proof (induction n rule: str_nat.induct)
  case (1 n)
  show ?case
  proof (cases "n < 10")
    case True
    then show ?thesis by (subst str_nat.simps) (simp add: digit_char)
  next
    case False
    with "1" show ?thesis by (subst str_nat.simps) (simp add: digit_char)
  qed
qed

lemma str_nat_hd: "(hd (str_nat n) = CHR ''0'') = (n = 0)"
proof (induction n rule: str_nat.induct)
  case (1 n)
  show ?case
  proof (cases "n < 10")
    case True
    then show ?thesis by (subst str_nat.simps) (simp add: digit_char)
  next
    case False
    then have "n div 10 \<noteq> 0" by simp
    with "1" False have "hd (str_nat (n div 10)) \<noteq> CHR ''0''" by simp
    with False show ?thesis
      by (subst str_nat.simps) (simp add: str_nat_nonempty)
  qed
qed

lemma str_nat_value: "foldl (\<lambda>a c. 10 * a + digit_value c) 0 (str_nat n) = n"
proof (induction n rule: str_nat.induct)
  case (1 n)
  show ?case
  proof (cases "n < 10")
    case True
    then show ?thesis by (subst str_nat.simps) (simp add: digit_char)
  next
    case False
    with "1" show ?thesis by (subst str_nat.simps) (simp add: digit_char)
  qed
qed

lemma str_nat_zero: "str_nat 0 = ''0''"
  by (simp add: str_nat.simps)

lemma decimal_nat_str_nat: "decimal_nat (str_nat n) = Some n"
proof -
  have "str_nat n = ''0'' \<or> hd (str_nat n) \<noteq> CHR ''0''"
    using str_nat_hd [of n] str_nat_zero by (cases "n = 0") simp_all
  then show ?thesis
    by (simp add: decimal_nat_def str_nat_nonempty str_nat_digits str_nat_value)
qed

lemma str_nat_no_sign: "hd (str_nat n) \<noteq> CHR ''-''"
proof -
  have "is_digit (hd (str_nat n))"
    using str_nat_digits [of n] str_nat_nonempty [of n] by (cases "str_nat n") simp_all
  then show ?thesis by (auto simp: is_digit_def)
qed

lemma decimal_value_str_int: "decimal_value (str_int c) = Some c"
proof (cases "c < 0")
  case True
  then show ?thesis
    by (simp add: str_int_def decimal_value_def decimal_nat_str_nat)
next
  case False
  then show ?thesis
    by (simp add: str_int_def decimal_value_def decimal_nat_str_nat str_nat_no_sign
        str_nat_nonempty)
qed

lemma str_nat_three_digits:
  assumes "100 \<le> n" and "n \<le> 999"
  shows "str_nat n =
    [''0123456789'' ! (n div 100), ''0123456789'' ! (n div 10 mod 10), ''0123456789'' ! (n mod 10)]"
proof -
  have a: "\<not> n < 10" "\<not> n div 10 < 10" "n div 10 div 10 < 10" using assms by simp_all
  have "str_nat n = str_nat (n div 10) @ [''0123456789'' ! (n mod 10)]"
    using a by (subst str_nat.simps) simp
  also have "str_nat (n div 10) =
      str_nat (n div 10 div 10) @ [''0123456789'' ! (n div 10 mod 10)]"
    using a by (subst str_nat.simps) simp
  also have "str_nat (n div 10 div 10) = [''0123456789'' ! (n div 10 div 10)]"
    using a by (subst str_nat.simps) simp
  finally show ?thesis by (simp add: div_mult2_eq [symmetric])
qed

lemma str_int_three_digits:
  assumes "100 \<le> c" and "c \<le> 999"
  shows "str_int c =
    [''0123456789'' ! nat (c div 100), ''0123456789'' ! nat (c div 10 mod 10),
     ''0123456789'' ! nat (c mod 10)]"
proof -
  have "100 \<le> nat c" "nat c \<le> 999" using assms by simp_all
  from str_nat_three_digits [OF this] assms show ?thesis
    by (simp add: str_int_def nat_div_distrib nat_mod_distrib)
qed

lemma decimal_value_examples:
  "decimal_value ''404'' = Some 404" "decimal_value ''0404'' = None"
  "decimal_value ''-7'' = Some (- 7)" "decimal_value ''4o4'' = None"
  "decimal_value '''' = None" "decimal_value ''-0'' = None" "decimal_value ''0'' = Some 0"
  by (simp_all add: decimal_value_def decimal_nat_def is_digit_def digit_value_def)

subsection \<open>One URL\<close>

lemma loop_body_cases:
  obtains
    (transport) "out = None"
      "loop_body dec url out = ([Requests_get url], Aborted RequestException)"
  | (decode) r where "out = Some r" "status_code r = 200" "dec r = None"
      "loop_body dec url out = ([Requests_get url, Response_json], Aborted JSONDecodeError)"
  | (ok) r v where "out = Some r" "status_code r = 200" "dec r = Some v"
      "loop_body dec url out = ([Requests_get url, Response_json, Print (Decoded v)], Running)"
  | (failed) r where "out = Some r" "status_code r \<noteq> 200"
      "loop_body dec url out =
         ([Requests_get url, Print (Message (failure_message url (status_code r)))], Running)"
proof (cases out)
  case None
  then show ?thesis using transport by simp
next
  case (Some r)
  show ?thesis
  proof (cases "status_code r = 200")
    case True
    then show ?thesis using Some decode ok by (cases "dec r") simp_all
  next
    case False
    then show ?thesis using Some failed by simp
  qed
qed

lemma loop_body_running:
  assumes "loop_body dec url out = (t, Running)"
  shows "requests_of t = [url] \<and> length (output_lines t) = 1 \<and> sleeps_of t = []
    \<and> (\<forall>us t'. one_line_per_url (url # us) (t @ t') = one_line_per_url us t')"
  by (rule loop_body_cases [where out = out and dec = dec and url = url])
    (use assms in auto)

lemma loop_body_aborted:
  assumes "loop_body dec url out = (t, Aborted e)"
  shows "requests_of t = [url] \<and> output_lines t = [] \<and> sleeps_of t = []"
  by (rule loop_body_cases [where out = out and dec = dec and url = url])
    (use assms in auto)

subsection \<open>One pass over the URLs\<close>

lemma for_loop_append:
  "for_loop dec net k (us @ vs) =
     (case for_loop dec net k us of
        (t, Aborted e) \<Rightarrow> (t, Aborted e)
      | (t, Running) \<Rightarrow>
          (case for_loop dec net (k + length us) vs of (t', s) \<Rightarrow> (t @ t', s)))"
proof (induction us arbitrary: k)
  case Nil
  show ?case by (simp split: prod.split)
next
  case (Cons u us)
  show ?case
    by (simp add: Cons.IH split: prod.split status.split)
qed

lemma for_loop_running:
  "for_loop dec net k us = (t, Running) \<Longrightarrow>
     requests_of t = us \<and> length (output_lines t) = length us \<and> sleeps_of t = []
     \<and> one_line_per_url us t"
proof (induction us arbitrary: k t)
  case Nil
  then show ?case by simp
next
  case (Cons u us)
  from Cons.prems obtain t1 t2 where
    b: "loop_body dec u (net k u) = (t1, Running)" and
    r: "for_loop dec net (Suc k) us = (t2, Running)" and
    t: "t = t1 @ t2"
    by (auto split: prod.splits status.splits)
  from loop_body_running [OF b] Cons.IH [OF r] t show ?case
    by (simp add: requests_of_append output_lines_append sleeps_of_append)
qed

lemma for_loop_aborted:
  "for_loop dec net k us = (t, Aborted e) \<Longrightarrow>
     (\<exists>i < length us. requests_of t = take (Suc i) us \<and> length (output_lines t) = i)
     \<and> sleeps_of t = []"
proof (induction us arbitrary: k t)
  case Nil
  then show ?case by simp
next
  case (Cons u us)
  show ?case
  proof (cases "loop_body dec u (net k u)")
    case (Pair t1 s1)
    show ?thesis
    proof (cases s1)
      case Running
      with Pair Cons.prems obtain t2 where
        r: "for_loop dec net (Suc k) us = (t2, Aborted e)" and t: "t = t1 @ t2"
        by (auto split: prod.splits status.splits)
      from Cons.IH [OF r] obtain i where
        i: "i < length us" "requests_of t2 = take (Suc i) us" "length (output_lines t2) = i"
        and s: "sleeps_of t2 = []" by blast
      from loop_body_running [of dec u "net k u" t1] Pair Running
      have b: "requests_of t1 = [u]" "length (output_lines t1) = 1" "sleeps_of t1 = []"
        by simp_all
      have "Suc i < length (u # us)" using i by simp
      moreover have "requests_of t = take (Suc (Suc i)) (u # us)"
        using t b i by (simp add: requests_of_append)
      moreover have "length (output_lines t) = Suc i"
        using t b i by (simp add: output_lines_append)
      moreover have "sleeps_of t = []" using t b s by (simp add: sleeps_of_append)
      ultimately show ?thesis by blast
    next
      case (Aborted e')
      with Pair Cons.prems have t: "t = t1" by simp
      from loop_body_aborted [of dec u "net k u" t1 e'] Pair Aborted t
      have "requests_of t = [u]" "output_lines t = []" "sleeps_of t = []" by simp_all
      then show ?thesis by auto
    qed
  qed
qed

subsection \<open>The endless loop\<close>

lemma while_true_add:
  "while_true dec net (m + n) k =
     (case while_true dec net m k of
        (t, Aborted e) \<Rightarrow> (t, Aborted e)
      | (t, Running) \<Rightarrow>
          (case while_true dec net n (k + m * length urls) of (t', s) \<Rightarrow> (t @ t', s)))"
proof (induction m arbitrary: k)
  case 0
  show ?case by (simp split: prod.split)
next
  case (Suc m)
  show ?case
    by (simp add: Suc.IH add.assoc add.commute split: prod.split status.split)
qed

lemma while_true_snoc:
  assumes "while_true dec net n k = (T, Running)"
  shows "while_true dec net (Suc n) k =
     (case for_loop dec net (k + n * length urls) urls of
        (t, Aborted e) \<Rightarrow> (T @ t, Aborted e)
      | (t, Running) \<Rightarrow> (T @ t @ [Time_sleep 240], Running))"
proof -
  have "while_true dec net (n + 1) k =
     (case while_true dec net 1 (k + n * length urls) of (t', s) \<Rightarrow> (T @ t', s))"
    using assms by (simp only: while_true_add prod.case status.case)
  then show ?thesis by (simp split: prod.split status.split)
qed

lemma while_true_aborted:
  assumes "while_true dec net n k = (T, Aborted e)"
  shows "while_true dec net (n + m) k = (T, Aborted e)"
  using assms by (simp only: while_true_add prod.case status.case)

lemma while_true_prefix:
  assumes "while_true dec net (n + m) k = (T, Running)"
  shows "\<exists>T'. while_true dec net n k = (T', Running)"
proof (cases "while_true dec net n k")
  case (Pair T' s)
  show ?thesis
  proof (cases s)
    case Running
    with Pair show ?thesis by simp
  next
    case (Aborted e)
    with Pair while_true_aborted [of dec net n k T' e m] assms show ?thesis by simp
  qed
qed

lemma loop_body_head: "\<exists>t'. fst (loop_body dec url out) = Requests_get url # t'"
  by (rule loop_body_cases [where out = out and dec = dec and url = url]) simp_all

lemma for_loop_head: "\<exists>t'. fst (for_loop dec net k (u # us)) = Requests_get u # t'"
proof -
  obtain t' where "fst (loop_body dec u (net k u)) = Requests_get u # t'"
    using loop_body_head by blast
  then show ?thesis
    by (cases "loop_body dec u (net k u)") (auto split: prod.split status.split)
qed

lemma urls_Cons: "urls = hd urls # tl urls"
  by (simp add: urls_def)

lemma while_true_head: "\<exists>t'. fst (while_true dec net (Suc n) k) = Requests_get (hd urls) # t'"
proof -
  obtain t' where "fst (for_loop dec net k (hd urls # tl urls)) = Requests_get (hd urls) # t'"
    using for_loop_head by blast
  then have "fst (for_loop dec net k urls) = Requests_get (hd urls) # t'"
    using urls_Cons by simp
  then show ?thesis
    by (cases "for_loop dec net k urls") (auto split: prod.split status.split)
qed

lemma while_true_running:
  "while_true dec net n k = (T, Running) \<Longrightarrow>
     sleeps_of T = replicate n 240 \<and> length (requests_of T) = n * length urls
     \<and> length (output_lines T) = n * length urls"
proof (induction n arbitrary: k T)
  case 0
  then show ?case by simp
next
  case (Suc n)
  from Suc.prems obtain t T' where
    c: "for_loop dec net k urls = (t, Running)" and
    w: "while_true dec net n (k + length urls) = (T', Running)" and
    T: "T = t @ Time_sleep 240 # T'"
    by (auto split: prod.splits status.splits)
  from for_loop_running [OF c] Suc.IH [OF w] T show ?case
    by (simp add: requests_of_append output_lines_append sleeps_of_append)
qed

lemma while_true_sleeps: "set (sleeps_of (fst (while_true dec net n k))) \<subseteq> {240}"
proof (induction n arbitrary: k)
  case 0
  show ?case by simp
next
  case (Suc n)
  show ?case
  proof (cases "for_loop dec net k urls")
    case (Pair t s)
    show ?thesis
    proof (cases s)
      case Running
      with Pair for_loop_running [of dec net k urls t] Suc.IH [of "k + length urls"]
      show ?thesis
        by (auto simp: sleeps_of_append split: prod.split)
    next
      case (Aborted e)
      with Pair for_loop_aborted [of dec net k urls t e] show ?thesis by simp
    qed
  qed
qed

lemma first_sleep:
  "sleeps_of t1 = [] \<Longrightarrow> t1 @ Time_sleep a # x = t @ Time_sleep d # y \<Longrightarrow> \<exists>s. t = t1 @ s"
proof (induction t1 arbitrary: t)
  case Nil
  show ?case by simp
next
  case (Cons e t1)
  from Cons.prems(1) have e: "\<forall>n. e \<noteq> Time_sleep n" and s: "sleeps_of t1 = []"
    by (cases e; simp)+
  from Cons.prems(2) e obtain t' where t: "t = e # t'" by (cases t) auto
  with Cons.prems(2) have "t1 @ Time_sleep a # x = t' @ Time_sleep d # y" by simp
  from Cons.IH [OF s this] t show ?case by auto
qed

subsection \<open>A pass that reaches a given URL\<close>

lemma for_loop_at:
  assumes i: "i < length us"
    and before: "for_loop dec net k (take i us) = (t0, Running)"
    and here: "loop_body dec (us ! i) (net (k + i) (us ! i)) = (ti, si)"
  shows "for_loop dec net k us =
     (case si of
        Aborted e \<Rightarrow> (t0 @ ti, Aborted e)
      | Running \<Rightarrow>
          (case for_loop dec net (k + Suc i) (drop (Suc i) us) of
             (t', s) \<Rightarrow> (t0 @ ti @ t', s)))"
proof -
  have len: "length (take i us) = i" using i by simp
  have "for_loop dec net k (take i us @ us ! i # drop (Suc i) us) =
     (case for_loop dec net (k + i) (us ! i # drop (Suc i) us) of (t', s) \<Rightarrow> (t0 @ t', s))"
    by (simp only: for_loop_append before prod.case status.case len)
  moreover have "take i us @ us ! i # drop (Suc i) us = us"
    using i by (simp add: id_take_nth_drop [symmetric])
  ultimately show ?thesis
    using here by (simp split: prod.split status.split)
qed

lemma for_loop_aborted_at:
  "for_loop dec net k us = (t, Aborted e) \<Longrightarrow>
     \<exists>i t0 ti. i < length us \<and> t = t0 @ ti
       \<and> for_loop dec net k (take i us) = (t0, Running)
       \<and> loop_body dec (us ! i) (net (k + i) (us ! i)) = (ti, Aborted e)"
proof (induction us arbitrary: k t)
  case Nil
  then show ?case by simp
next
  case (Cons u us)
  show ?case
  proof (cases "loop_body dec u (net k u)")
    case (Pair t1 s1)
    show ?thesis
    proof (cases s1)
      case Running
      with Pair Cons.prems obtain t2 where
        r: "for_loop dec net (Suc k) us = (t2, Aborted e)" and t: "t = t1 @ t2"
        by (auto split: prod.splits status.splits)
      from Cons.IH [OF r] obtain i t0 ti where
        i: "i < length us" and t2: "t2 = t0 @ ti"
        and b: "for_loop dec net (Suc k) (take i us) = (t0, Running)"
        and h: "loop_body dec (us ! i) (net (Suc k + i) (us ! i)) = (ti, Aborted e)"
        by blast
      have "Suc i < length (u # us)" using i by simp
      moreover have "t = (t1 @ t0) @ ti" using t t2 by simp
      moreover have "for_loop dec net k (take (Suc i) (u # us)) = (t1 @ t0, Running)"
        using Pair Running b by simp
      moreover have "loop_body dec ((u # us) ! Suc i) (net (k + Suc i) ((u # us) ! Suc i)) =
          (ti, Aborted e)"
        using h by simp
      ultimately show ?thesis by blast
    next
      case (Aborted e')
      with Pair Cons.prems have "t = [] @ t1" "e' = e" by simp_all
      moreover have "for_loop dec net k (take 0 (u # us)) = ([], Running)" by simp
      moreover have "loop_body dec ((u # us) ! 0) (net (k + 0) ((u # us) ! 0)) = (t1, Aborted e')"
        using Pair Aborted by simp
      ultimately show ?thesis by blast
    qed
  qed
qed

subsection \<open>Whole runs\<close>

lemma program_snoc:
  assumes "program dec net n = (T, Running)"
  shows "program dec net (Suc n) =
     (case for_loop dec net (n * length urls) urls of
        (t, Aborted e) \<Rightarrow> (T @ t, Aborted e)
      | (t, Running) \<Rightarrow> (T @ t @ [Time_sleep 240], Running))"
  using while_true_snoc [of dec net n 0 T] assms by (simp add: program_def)

lemma program_add_running:
  assumes "program dec net n = (T, Running)"
  shows "program dec net (n + m) =
     (case while_true dec net m (n * length urls) of (t', s) \<Rightarrow> (T @ t', s))"
  using assms by (simp add: program_def while_true_add)

lemma program_aborted:
  assumes "program dec net n = (T, Aborted e)"
  shows "program dec net (n + m) = (T, Aborted e)"
  using assms while_true_aborted [of dec net n 0 T e m] by (simp add: program_def)

lemma program_aborts_at:
  assumes before: "program dec net n = (T, Running)"
    and i: "i < length urls"
    and earlier: "for_loop dec net (n * length urls) (take i urls) = (t0, Running)"
    and raised: "loop_body dec (urls ! i) (net (n * length urls + i) (urls ! i)) = (ti, Aborted e)"
  shows "program dec net (Suc n + m) = (T @ t0 @ ti, Aborted e)"
proof -
  from for_loop_at [where us = urls and i = i and dec = dec and net = net
      and k = "n * length urls" and ?t0.0 = t0 and ti = ti and si = "Aborted e"] i earlier raised
  have "for_loop dec net (n * length urls) urls = (t0 @ ti, Aborted e)" by simp
  with program_snoc [OF before]
  have "program dec net (Suc n) = (T @ t0 @ ti, Aborted e)" by simp
  then show ?thesis by (rule program_aborted)
qed

subsection \<open>Runs with the same outcomes\<close>

lemma loop_body_same:
  "same_outcome dec a b \<Longrightarrow> loop_body dec u a = loop_body dec u b"
  by (cases a; cases b) auto

lemma for_loop_same:
  "(\<forall>i<length us. same_outcome dec (net1 (k + i) (us ! i)) (net2 (k + i) (us ! i))) \<Longrightarrow>
     for_loop dec net1 k us = for_loop dec net2 k us"
proof (induction us arbitrary: k)
  case Nil
  show ?case by simp
next
  case (Cons u us)
  have "same_outcome dec (net1 (k + 0) ((u # us) ! 0)) (net2 (k + 0) ((u # us) ! 0))"
    using Cons.prems by blast
  then have "same_outcome dec (net1 k u) (net2 k u)" by simp
  then have b: "loop_body dec u (net1 k u) = loop_body dec u (net2 k u)"
    by (rule loop_body_same)
  have "\<forall>i<length us. same_outcome dec (net1 (Suc k + i) (us ! i)) (net2 (Suc k + i) (us ! i))"
  proof (intro allI impI)
    fix i assume "i < length us"
    then have "Suc i < length (u # us)" by simp
    with Cons.prems have "same_outcome dec (net1 (k + Suc i) ((u # us) ! Suc i))
        (net2 (k + Suc i) ((u # us) ! Suc i))" by blast
    then show "same_outcome dec (net1 (Suc k + i) (us ! i)) (net2 (Suc k + i) (us ! i))"
      by simp
  qed
  then have "for_loop dec net1 (Suc k) us = for_loop dec net2 (Suc k) us"
    by (rule Cons.IH)
  with b show ?case by simp
qed

lemma while_true_same:
  "(\<forall>j<n * length urls. same_outcome dec (net1 (k + j) (urls ! (j mod length urls)))
        (net2 (k + j) (urls ! (j mod length urls)))) \<Longrightarrow>
     while_true dec net1 n k = while_true dec net2 n k"
proof (induction n arbitrary: k)
  case 0
  show ?case by simp
next
  case (Suc n)
  have "\<forall>i<length urls. same_outcome dec (net1 (k + i) (urls ! i)) (net2 (k + i) (urls ! i))"
  proof (intro allI impI)
    fix i assume i: "i < length urls"
    then have "i < Suc n * length urls" by simp
    with Suc.prems have "same_outcome dec (net1 (k + i) (urls ! (i mod length urls)))
        (net2 (k + i) (urls ! (i mod length urls)))" by blast
    with i show "same_outcome dec (net1 (k + i) (urls ! i)) (net2 (k + i) (urls ! i))"
      by simp
  qed
  then have c: "for_loop dec net1 k urls = for_loop dec net2 k urls"
    by (rule for_loop_same)
  have "\<forall>j<n * length urls.
      same_outcome dec (net1 (k + length urls + j) (urls ! (j mod length urls)))
        (net2 (k + length urls + j) (urls ! (j mod length urls)))"
  proof (intro allI impI)
    fix j assume "j < n * length urls"
    then have "length urls + j < Suc n * length urls" by simp
    with Suc.prems have "same_outcome dec
        (net1 (k + (length urls + j)) (urls ! ((length urls + j) mod length urls)))
        (net2 (k + (length urls + j)) (urls ! ((length urls + j) mod length urls)))" by blast
    then show "same_outcome dec (net1 (k + length urls + j) (urls ! (j mod length urls)))
        (net2 (k + length urls + j) (urls ! (j mod length urls)))"
      by (simp add: add.assoc)
  qed
  then have "while_true dec net1 n (k + length urls) = while_true dec net2 n (k + length urls)"
    by (rule Suc.IH)
  with c show ?case by simp
qed

subsection \<open>The state machine follows the loop\<close>





subsection \<open>Runs in which every request is answered\<close>



subsection \<open>The concrete environments, evaluated\<close>

lemma str_int_404: "str_int 404 = ''404''"
  by (simp add: str_int_def str_nat.simps)

lemma scenario_pass:
  "for_loop demo_decoder scenario_network 0 urls =
     ([Requests_get (urls ! 0), Response_json, Print (Decoded x_value),
       Requests_get (urls ! 1), Print (Message (failure_message (urls ! 1) 500))], Running)"
  by (simp add: urls_def scenario_network_def ok_response_def error_response_def
      demo_decoder_def x_body_def rank_body_def)

lemma scenario_program_1:
  "program demo_decoder scenario_network (Suc 0) =
       ([Requests_get (urls ! 0), Response_json, Print (Decoded x_value),
         Requests_get (urls ! 1), Print (Message (failure_message (urls ! 1) 500)),
         Time_sleep 240], Running)"
  by (simp add: program_def scenario_pass)

lemma garbled_ok:
  "for_loop demo_decoder garbled_network (0 * length urls) (take 1 urls) =
     ([Requests_get (urls ! 0), Print (Message (failure_message (urls ! 0) 500))], Running)"
  by (simp add: urls_def garbled_network_def error_response_def)

lemma garbled_raise:
  "loop_body demo_decoder (urls ! 1) (garbled_network (0 * length urls + 1) (urls ! 1)) =
     ([Requests_get (urls ! 1), Response_json], Aborted JSONDecodeError)"
  by (simp add: garbled_network_def ok_response_def demo_decoder_def
      rank_body_def x_body_def)

lemma missing_first:
  "for_loop demo_decoder missing_network (0 * length urls) (take 0 urls) = ([], Running)"
  by simp


lemma json_run:
  "program charset_decoder json_network 1 =
     ([Requests_get (urls ! 0), Response_json, Print (Decoded rank_value),
       Requests_get (urls ! 1), Response_json, Print (Decoded rank_value),
       Time_sleep 240], Running)"
  by (simp add: program_def urls_def json_network_def json_response_def charset_decoder_def
      demo_decoder_def)

lemma utf16_run:
  "program charset_decoder utf16_network 1 =
     ([Requests_get (urls ! 0), Response_json], Aborted JSONDecodeError)"
  by (simp add: program_def urls_def utf16_network_def utf16_response_def charset_decoder_def)

lemma scenario_dated_same:
  "\<forall>k<2 * length urls. same_outcome demo_decoder
      (scenario_network k (urls ! (k mod length urls)))
      (dated_network k (urls ! (k mod length urls)))"
  by (simp add: scenario_network_def dated_network_def ok_response_def error_response_def
      demo_decoder_def)

section \<open>The claims\<close>



text \<open>C2. For every URL of the list, when the response to its GET has a status code other
  than 200, the program does not call \<^verbatim>\<open>response.json()\<close> and prints exactly one line,
  \<^verbatim>\<open>Failed to retrieve data from {url}. Status code: {code}\<close>, with the URL and the status code
  in decimal: the text after \<^verbatim>\<open>Status code: \<close> is the decimal numeral of the status code,
  which for a code from 100 to 999 is its three digits; for the code 404 the line ends in
  \<^verbatim>\<open>Status code: 404\<close>.\<close>

theorem other_status_prints_failure_message:
  assumes "status_code r \<noteq> 200"
  shows "loop_body dec url (Some r) =
       ([Requests_get url,
         Print (Message (''Failed to retrieve data from '' @ url @ ''. Status code: ''
           @ str_int (status_code r)))], Running)
     \<and> json_calls (fst (loop_body dec url (Some r))) = 0
     \<and> (\<forall>net k i t0. i < length urls \<and> for_loop dec net k (take i urls) = (t0, Running)
           \<and> net (k + i) (urls ! i) = Some r \<longrightarrow>
         (\<exists>t' s. for_loop dec net k urls =
           (t0 @ [Requests_get (urls ! i),
              Print (Message (failure_message (urls ! i) (status_code r)))] @ t', s)))
     \<and> decimal_value (str_int (status_code r)) = Some (status_code r)
     \<and> (100 \<le> status_code r \<and> status_code r \<le> 999 \<longrightarrow>
         str_int (status_code r) =
           [''0123456789'' ! nat (status_code r div 100),
            ''0123456789'' ! nat (status_code r div 10 mod 10),
            ''0123456789'' ! nat (status_code r mod 10)])
     \<and> (status_code r = 404 \<longrightarrow>
         output_lines (fst (loop_body dec url (Some r))) =
           [Message (''Failed to retrieve data from '' @ url @ ''. Status code: 404'')])"
proof (intro conjI allI impI)
  show b: "loop_body dec url (Some r) =
       ([Requests_get url,
         Print (Message (''Failed to retrieve data from '' @ url @ ''. Status code: ''
           @ str_int (status_code r)))], Running)" for url
    using assms by (simp add: failure_message_def)
  show "json_calls (fst (loop_body dec url (Some r))) = 0"
    using assms by simp
  show "\<exists>t' s. for_loop dec net k urls =
      (t0 @ [Requests_get (urls ! i),
         Print (Message (failure_message (urls ! i) (status_code r)))] @ t', s)"
    if h: "i < length urls \<and> for_loop dec net k (take i urls) = (t0, Running)
      \<and> net (k + i) (urls ! i) = Some r" for net k i t0
  proof -
    have "loop_body dec (urls ! i) (net (k + i) (urls ! i)) =
        ([Requests_get (urls ! i),
          Print (Message (failure_message (urls ! i) (status_code r)))], Running)"
      using h assms by simp
    with h for_loop_at [where us = urls and i = i and dec = dec and net = net
        and k = k and ?t0.0 = t0]
    show ?thesis
      by (auto split: prod.split)
  qed
  show "decimal_value (str_int (status_code r)) = Some (status_code r)"
    by (rule decimal_value_str_int)
  show "str_int (status_code r) =
      [''0123456789'' ! nat (status_code r div 100),
       ''0123456789'' ! nat (status_code r div 10 mod 10),
       ''0123456789'' ! nat (status_code r mod 10)]"
    if "100 \<le> status_code r \<and> status_code r \<le> 999"
    using that by (simp add: str_int_three_digits)
  show "output_lines (fst (loop_body dec url (Some r))) =
      [Message (''Failed to retrieve data from '' @ url @ ''. Status code: 404'')]"
    if "status_code r = 404"
    using that by (simp add: failure_message_def str_int_404)
qed

theorem other_status_prints_failure_message_witness:
  "status_code (error_response 404) \<noteq> 200
   \<and> loop_body demo_decoder (urls ! 1) (Some (error_response 404)) =
       ([Requests_get ''https://f0rest-rank-api.glitch.me/getRank/f0rest'',
         Print (Message
           ''Failed to retrieve data from https://f0rest-rank-api.glitch.me/getRank/f0rest. Status code: 404'')],
        Running)
   \<and> status_code (error_response 503) \<noteq> 200
   \<and> loop_body demo_decoder (urls ! 0) (Some (error_response 503)) =
       ([Requests_get ''https://f0rest-rank-api.glitch.me/getRank/olofmeister'',
         Print (Message
           ''Failed to retrieve data from https://f0rest-rank-api.glitch.me/getRank/olofmeister. Status code: 503'')],
        Running)
   \<and> decimal_value (str_int (status_code (error_response 503))) = Some 503
   \<and> str_int (status_code (error_response 503)) = ''503''"
proof -
  have a: "status_code (error_response 404) \<noteq> 200"
    by (simp add: error_response_def)
  have u: "urls ! 1 = ''https://f0rest-rank-api.glitch.me/getRank/f0rest''"
    by (simp add: urls_def)
  have s: "str_int (status_code (error_response 404)) = ''404''"
    by (simp add: error_response_def str_int_404)
  from other_status_prints_failure_message [where r = "error_response 404"
      and dec = demo_decoder and url = "urls ! 1"] a
  have first: "loop_body demo_decoder (urls ! 1) (Some (error_response 404)) =
       ([Requests_get ''https://f0rest-rank-api.glitch.me/getRank/f0rest'',
         Print (Message
           ''Failed to retrieve data from https://f0rest-rank-api.glitch.me/getRank/f0rest. Status code: 404'')],
        Running)"
    by (simp only: u s) simp
  have a': "status_code (error_response 503) \<noteq> 200"
    and c: "status_code (error_response 503) = 503"
    by (simp_all add: error_response_def)
  have u': "urls ! 0 = ''https://f0rest-rank-api.glitch.me/getRank/olofmeister''"
    by (simp add: urls_def)
  from other_status_prints_failure_message [where r = "error_response 503"
      and dec = demo_decoder and url = "urls ! 0"] a'
  have body: "loop_body demo_decoder (urls ! 0) (Some (error_response 503)) =
       ([Requests_get (urls ! 0),
         Print (Message (''Failed to retrieve data from '' @ urls ! 0 @ ''. Status code: ''
           @ str_int (status_code (error_response 503))))], Running)"
    and dv: "decimal_value (str_int (status_code (error_response 503))) =
        Some (status_code (error_response 503))"
    and three: "100 \<le> status_code (error_response 503)
        \<and> status_code (error_response 503) \<le> 999 \<longrightarrow>
      str_int (status_code (error_response 503)) =
        [''0123456789'' ! nat (status_code (error_response 503) div 100),
         ''0123456789'' ! nat (status_code (error_response 503) div 10 mod 10),
         ''0123456789'' ! nat (status_code (error_response 503) mod 10)]"
    by blast+
  from three have s': "str_int (status_code (error_response 503)) = ''503''"
    by (simp add: c)
  from body have second: "loop_body demo_decoder (urls ! 0) (Some (error_response 503)) =
       ([Requests_get ''https://f0rest-rank-api.glitch.me/getRank/olofmeister'',
         Print (Message
           ''Failed to retrieve data from https://f0rest-rank-api.glitch.me/getRank/olofmeister. Status code: 503'')],
        Running)"
    by (simp only: u' s') simp
  from dv c have dv': "decimal_value (str_int (status_code (error_response 503))) = Some 503"
    by simp
  from a first a' second dv' s' show ?thesis
    by blast
qed

text \<open>C3. As stated (in every cycle, exactly one GET request and exactly one output line per
  URL) the claim fails in a cycle that an uncaught exception ends: when the first request
  fails in transport, the cycle has made one request for two URLs and printed no line.\<close>

theorem aborted_pass_counterexample:
  "program demo_decoder offline_network 1 =
     ([Requests_get (urls ! 0)], Aborted RequestException)
   \<and> requests_of (fst (program demo_decoder offline_network 1)) \<noteq> urls
   \<and> length (output_lines (fst (program demo_decoder offline_network 1))) \<noteq> length urls"
  by (simp add: program_def offline_network_def urls_def)

text \<open>C3, amended. After any number of completed cycles, the next cycle visits the URLs in the
  order of the list, the line of a URL before the request of the next one. When no
  exception ends the cycle, it makes exactly one GET request per URL and prints exactly one
  line per URL, and then sleeps. When an exception ends it at some URL, the URLs before that
  one have had their request and their line, that URL has had its request and no line, and
  nothing follows.\<close>

theorem completed_pass_one_line_per_url:
  assumes "program dec net n = (T, Running)"
  shows "\<exists>t s. program dec net (Suc n) = (T @ t, s) \<and>
     (case s of
        Running \<Rightarrow>
          (\<exists>c. t = c @ [Time_sleep 240] \<and> requests_of c = urls
             \<and> length (output_lines c) = length urls \<and> one_line_per_url urls c)
      | Aborted e \<Rightarrow>
          (\<exists>i t0 ti. i < length urls \<and> t = t0 @ ti \<and> one_line_per_url (take i urls) t0
             \<and> requests_of ti = [urls ! i] \<and> output_lines ti = []
             \<and> requests_of t = take (Suc i) urls \<and> sleeps_of t = []))"
proof (cases "for_loop dec net (n * length urls) urls")
  case (Pair c s)
  show ?thesis
  proof (cases s)
    case Running
    with Pair program_snoc [OF assms]
    have "program dec net (Suc n) = (T @ c @ [Time_sleep 240], Running)" by simp
    moreover from for_loop_running [of dec net "n * length urls" urls c] Pair Running
    have "requests_of c = urls \<and> length (output_lines c) = length urls
        \<and> one_line_per_url urls c" by simp
    ultimately show ?thesis by simp
  next
    case (Aborted e)
    with Pair program_snoc [OF assms]
    have p: "program dec net (Suc n) = (T @ c, Aborted e)" by simp
    from for_loop_aborted_at [of dec net "n * length urls" urls c e] Pair Aborted
    obtain i t0 ti where i: "i < length urls" and c: "c = t0 @ ti"
      and b: "for_loop dec net (n * length urls) (take i urls) = (t0, Running)"
      and h: "loop_body dec (urls ! i) (net (n * length urls + i) (urls ! i)) = (ti, Aborted e)"
      by blast
    from for_loop_running [OF b] have t0: "one_line_per_url (take i urls) t0"
      "requests_of t0 = take i urls" by simp_all
    from loop_body_aborted [OF h]
    have ti: "requests_of ti = [urls ! i]" "output_lines ti = []" by simp_all
    have "requests_of c = take (Suc i) urls"
      using c t0 ti i by (simp add: requests_of_append take_Suc_conv_app_nth)
    moreover note t0(1) ti
    moreover from for_loop_aborted [of dec net "n * length urls" urls c e] Pair Aborted
    have "sleeps_of c = []" by simp
    ultimately show ?thesis using p i c by auto
  qed
qed

theorem completed_pass_one_line_per_url_witness:
  "program demo_decoder scenario_network 0 = ([], Running)
   \<and> (\<exists>t s. program demo_decoder scenario_network (Suc 0) = ([] @ t, s) \<and>
     (case s of
        Running \<Rightarrow>
          (\<exists>c. t = c @ [Time_sleep 240] \<and> requests_of c = urls
             \<and> length (output_lines c) = length urls \<and> one_line_per_url urls c)
      | Aborted e \<Rightarrow>
          (\<exists>i t0 ti. i < length urls \<and> t = t0 @ ti \<and> one_line_per_url (take i urls) t0
             \<and> requests_of ti = [urls ! i] \<and> output_lines ti = []
             \<and> requests_of t = take (Suc i) urls \<and> sleeps_of t = [])))
   \<and> program demo_decoder scenario_network (Suc 0) =
       ([Requests_get (urls ! 0), Response_json, Print (Decoded x_value),
         Requests_get (urls ! 1), Print (Message (failure_message (urls ! 1) 500)),
         Time_sleep 240], Running)"
proof -
  have a: "program demo_decoder scenario_network 0 = ([], Running)"
    by (simp add: program_def)
  have b: "program demo_decoder scenario_network (Suc 0) =
       ([Requests_get (urls ! 0), Response_json, Print (Decoded x_value),
         Requests_get (urls ! 1), Print (Message (failure_message (urls ! 1) 500)),
         Time_sleep 240], Running)"
    by (simp add: program_def scenario_pass)
  from completed_pass_one_line_per_url [OF a] a b show ?thesis
    by blast
qed

text \<open>C4. When a cycle has been completed, the call that follows the line of its last URL is
  \<^verbatim>\<open>time.sleep(240)\<close>, and the first request of the next cycle is the call right after
  it: no request of the next cycle comes before the sleep has returned. Every completed
  cycle has exactly one such call. (How long the suspension lasts is what
  \<^verbatim>\<open>time.sleep\<close> does with its argument 240.)\<close>

theorem sleep_240_between_cycles:
  assumes "program dec net (Suc n) = (T, Running)"
  shows "(\<exists>T0 c. program dec net n = (T0, Running)
         \<and> for_loop dec net (n * length urls) urls = (c, Running)
         \<and> T = T0 @ c @ [Time_sleep 240])
     \<and> (\<forall>m. \<exists>t' s. program dec net (Suc (Suc n) + m) = (T @ Requests_get (hd urls) # t', s))
     \<and> sleeps_of T = replicate (Suc n) 240"
proof (intro conjI allI)
  from while_true_prefix [of dec net n 1 0 T] assms
  obtain T0 where T0: "program dec net n = (T0, Running)"
    by (auto simp: program_def)
  show "\<exists>T0 c. program dec net n = (T0, Running)
         \<and> for_loop dec net (n * length urls) urls = (c, Running)
         \<and> T = T0 @ c @ [Time_sleep 240]"
    using program_snoc [OF T0] assms T0
    by (cases "for_loop dec net (n * length urls) urls")
      (auto split: status.splits)
  show "\<exists>t' s. program dec net (Suc (Suc n) + m) = (T @ Requests_get (hd urls) # t', s)" for m
  proof -
    obtain t' where "fst (while_true dec net (Suc m) (Suc n * length urls)) =
        Requests_get (hd urls) # t'"
      using while_true_head by blast
    moreover have "program dec net (Suc n + Suc m) =
        (case while_true dec net (Suc m) (Suc n * length urls) of (t', s) \<Rightarrow> (T @ t', s))"
      by (rule program_add_running [OF assms])
    ultimately show ?thesis
      by (cases "while_true dec net (Suc m) (Suc n * length urls)") simp
  qed
  show "sleeps_of T = replicate (Suc n) 240"
    using while_true_running [of dec net "Suc n" 0 T] assms by (simp add: program_def)
qed

theorem sleep_240_between_cycles_witness:
  "program demo_decoder scenario_network (Suc 0) =
       ([Requests_get (urls ! 0), Response_json, Print (Decoded x_value),
         Requests_get (urls ! 1), Print (Message (failure_message (urls ! 1) 500)),
         Time_sleep 240], Running)
   \<and> (\<exists>t' s. program demo_decoder scenario_network (Suc (Suc 0) + 0) =
       ([Requests_get (urls ! 0), Response_json, Print (Decoded x_value),
         Requests_get (urls ! 1), Print (Message (failure_message (urls ! 1) 500)),
         Time_sleep 240] @ Requests_get (hd urls) # t', s))"
  using sleep_240_between_cycles [OF scenario_program_1] scenario_program_1
  by blast



text \<open>C6. A response with a status code other than 200 is handled where it arrives: the loop
  body prints the diagnostic line and goes on. When the URL is not the last of the list, the
  call after the line is the request for the next URL; when it is the last, the cycle is
  completed, the program sleeps, and the next cycle starts with the request for the first
  URL.\<close>

theorem non_200_does_not_interrupt:
  assumes failed: "status_code r \<noteq> 200"
    and before: "program dec net n = (T, Running)"
    and i: "i < length urls"
    and earlier: "for_loop dec net (n * length urls) (take i urls) = (t0, Running)"
    and here: "net (n * length urls + i) (urls ! i) = Some r"
  shows "loop_body dec (urls ! i) (Some r) =
       ([Requests_get (urls ! i),
         Print (Message (failure_message (urls ! i) (status_code r)))], Running)
     \<and> (Suc i < length urls \<longrightarrow>
         (\<exists>t' s. program dec net (Suc n) =
           (T @ t0 @ [Requests_get (urls ! i),
              Print (Message (failure_message (urls ! i) (status_code r))),
              Requests_get (urls ! Suc i)] @ t', s)))
     \<and> (Suc i = length urls \<longrightarrow>
         (\<forall>m. \<exists>t' s. program dec net (Suc (Suc n) + m) =
           (T @ t0 @ [Requests_get (urls ! i),
              Print (Message (failure_message (urls ! i) (status_code r))),
              Time_sleep 240, Requests_get (hd urls)] @ t', s)))"
proof (intro conjI allI impI)
  let ?ti = "[Requests_get (urls ! i),
      Print (Message (failure_message (urls ! i) (status_code r)))]"
  show b: "loop_body dec (urls ! i) (Some r) = (?ti, Running)"
    using failed by simp
  from for_loop_at [where us = urls and i = i and dec = dec and net = net
      and k = "n * length urls" and ?t0.0 = t0 and ti = ?ti and si = Running]
    i earlier here b
  have pass: "for_loop dec net (n * length urls) urls =
      (case for_loop dec net (n * length urls + Suc i) (drop (Suc i) urls) of
         (t', s) \<Rightarrow> (t0 @ ?ti @ t', s))"
    by simp
  show "\<exists>t' s. program dec net (Suc n) =
      (T @ t0 @ [Requests_get (urls ! i),
         Print (Message (failure_message (urls ! i) (status_code r))),
         Requests_get (urls ! Suc i)] @ t', s)"
    if more: "Suc i < length urls"
  proof -
    have d: "drop (Suc i) urls = urls ! Suc i # drop (Suc (Suc i)) urls"
      using more by (simp add: Cons_nth_drop_Suc)
    obtain t'' s'' where r: "for_loop dec net (n * length urls + Suc i) (drop (Suc i) urls) =
        (Requests_get (urls ! Suc i) # t'', s'')"
      using for_loop_head [of dec net "n * length urls + Suc i" "urls ! Suc i"
          "drop (Suc (Suc i)) urls"] d
      by (cases "for_loop dec net (n * length urls + Suc i) (drop (Suc i) urls)") auto
    from pass r have "for_loop dec net (n * length urls) urls =
        (t0 @ ?ti @ Requests_get (urls ! Suc i) # t'', s'')" by simp
    with program_snoc [OF before] show ?thesis
      by (cases s'') simp_all
  qed
  show "\<exists>t' s. program dec net (Suc (Suc n) + m) =
      (T @ t0 @ [Requests_get (urls ! i),
         Print (Message (failure_message (urls ! i) (status_code r))),
         Time_sleep 240, Requests_get (hd urls)] @ t', s)"
    if last: "Suc i = length urls" for m
  proof -
    have "drop (Suc i) urls = []" using last by simp
    with pass have "for_loop dec net (n * length urls) urls = (t0 @ ?ti, Running)"
      by simp
    with program_snoc [OF before]
    have p: "program dec net (Suc n) = (T @ t0 @ ?ti @ [Time_sleep 240], Running)" by simp
    obtain t' s' where w: "while_true dec net (Suc m) (Suc n * length urls) =
        (Requests_get (hd urls) # t', s')"
      using while_true_head [of dec net m "Suc n * length urls"]
      by (cases "while_true dec net (Suc m) (Suc n * length urls)") auto
    from program_add_running [OF p, of "Suc m"] w show ?thesis by simp
  qed
qed

theorem non_200_does_not_interrupt_witness:
  "status_code (error_response 404) \<noteq> 200
   \<and> program demo_decoder missing_network 0 = ([], Running)
   \<and> 0 < length urls \<and> Suc 0 < length urls
   \<and> missing_network (0 * length urls + 0) (urls ! 0) = Some (error_response 404)
   \<and> (\<exists>t' s. program demo_decoder missing_network (Suc 0) =
           ([] @ [] @ [Requests_get (urls ! 0),
              Print (Message (failure_message (urls ! 0) (status_code (error_response 404)))),
              Requests_get (urls ! Suc 0)] @ t', s))"
proof -
  have a: "status_code (error_response 404) \<noteq> 200"
    by (simp add: error_response_def)
  have b: "program demo_decoder missing_network 0 = ([], Running)"
    by (simp add: program_def)
  have c: "0 < length urls" and c': "Suc 0 < length urls"
    by (simp_all add: urls_def)
  have d: "missing_network (0 * length urls + 0) (urls ! 0) = Some (error_response 404)"
    by (simp add: missing_network_def)
  from non_200_does_not_interrupt [OF a b c missing_first d] a b c c' d
  show ?thesis by blast
qed

text \<open>C7. When a 200 response has a body that \<^verbatim>\<open>response.json()\<close> rejects, nothing in the
  program catches the error: the loop body ends with the exception after the request and the
  json call, with no line printed; the \<^verbatim>\<open>for\<close> loop ends with it at that URL; and the
  run ends with it, however long it is observed.\<close>

theorem json_decode_error_propagates:
  assumes "status_code r = 200" and "dec r = None"
  shows "loop_body dec url (Some r) =
       ([Requests_get url, Response_json], Aborted JSONDecodeError)
     \<and> output_lines (fst (loop_body dec url (Some r))) = []
     \<and> (\<forall>net k rest. net k url = Some r \<longrightarrow>
          for_loop dec net k (url # rest) =
            ([Requests_get url, Response_json], Aborted JSONDecodeError))
     \<and> (\<forall>net n T i t0 m. program dec net n = (T, Running) \<and> i < length urls
          \<and> for_loop dec net (n * length urls) (take i urls) = (t0, Running)
          \<and> net (n * length urls + i) (urls ! i) = Some r \<longrightarrow>
          program dec net (Suc n + m) =
            (T @ t0 @ [Requests_get (urls ! i), Response_json], Aborted JSONDecodeError))"
proof (intro conjI allI impI)
  show b: "loop_body dec url (Some r) =
       ([Requests_get url, Response_json], Aborted JSONDecodeError)" for url
    using assms by simp
  show "output_lines (fst (loop_body dec url (Some r))) = []"
    using assms by simp
  show "for_loop dec net k (url # rest) =
      ([Requests_get url, Response_json], Aborted JSONDecodeError)"
    if "net k url = Some r" for net k rest
    using that assms by simp
  show "program dec net (Suc n + m) =
      (T @ t0 @ [Requests_get (urls ! i), Response_json], Aborted JSONDecodeError)"
    if h: "program dec net n = (T, Running) \<and> i < length urls
          \<and> for_loop dec net (n * length urls) (take i urls) = (t0, Running)
          \<and> net (n * length urls + i) (urls ! i) = Some r" for net n T i t0 m
  proof -
    have "loop_body dec (urls ! i) (net (n * length urls + i) (urls ! i)) =
        ([Requests_get (urls ! i), Response_json], Aborted JSONDecodeError)"
      using h b by simp
    with h show ?thesis
      using program_aborts_at [where dec = dec and net = net and n = n and T = T and i = i
          and ?t0.0 = t0 and m = m] by blast
  qed
qed

theorem json_decode_error_propagates_witness:
  "status_code (ok_response ''<html>'') = 200
   \<and> demo_decoder (ok_response ''<html>'') = None
   \<and> loop_body demo_decoder (urls ! 1) (Some (ok_response ''<html>'')) =
       ([Requests_get (urls ! 1), Response_json], Aborted JSONDecodeError)
   \<and> output_lines (fst (loop_body demo_decoder (urls ! 1) (Some (ok_response ''<html>'')))) = []"
proof -
  have a: "status_code (ok_response ''<html>'') = 200"
    by (simp add: ok_response_def)
  have b: "demo_decoder (ok_response ''<html>'') = None"
    by (simp add: ok_response_def demo_decoder_def rank_body_def x_body_def)
  from json_decode_error_propagates [where r = "ok_response ''<html>''" and dec = demo_decoder
      and url = "urls ! 1"] a b
  show ?thesis by blast
qed

text \<open>C8. As stated (the same status codes and the same bodies give the same output lines)
  the claim fails: \<^verbatim>\<open>response.json()\<close> also reads the encoding that the headers declare.
  Two runs whose responses all have status 200 and the body \<^verbatim>\<open>{"rank": 5}\<close>, one declared as
  JSON and the other as UTF-16, differ: the first prints the decoded value for both URLs, the
  second raises at the first URL and prints nothing.\<close>

theorem same_status_and_body_counterexample:
  "same_status_and_body (json_network 0 (urls ! 0)) (utf16_network 0 (urls ! 0))
   \<and> same_status_and_body (json_network 1 (urls ! 1)) (utf16_network 1 (urls ! 1))
   \<and> program charset_decoder json_network 1 =
       ([Requests_get (urls ! 0), Response_json, Print (Decoded rank_value),
         Requests_get (urls ! 1), Response_json, Print (Decoded rank_value),
         Time_sleep 240], Running)
   \<and> program charset_decoder utf16_network 1 =
       ([Requests_get (urls ! 0), Response_json], Aborted JSONDecodeError)
   \<and> output_lines (fst (program charset_decoder json_network 1)) \<noteq>
       output_lines (fst (program charset_decoder utf16_network 1))"
proof -
  have "same_status_and_body (json_network 0 (urls ! 0)) (utf16_network 0 (urls ! 0))"
    and "same_status_and_body (json_network 1 (urls ! 1)) (utf16_network 1 (urls ! 1))"
    by (simp_all add: json_network_def utf16_network_def json_response_def utf16_response_def)
  moreover have "output_lines (fst (program charset_decoder json_network 1)) \<noteq>
       output_lines (fst (program charset_decoder utf16_network 1))"
    by (simp only: json_run utf16_run) simp
  ultimately show ?thesis using json_run utf16_run by blast
qed

text \<open>C8, amended. The program is deterministic in what it reads of its environment: two runs
  in which each request, for the URL it is sent to, has the same outcome (both raise, or both
  answer with the same status code and, when that code is 200, \<^verbatim>\<open>response.json()\<close> gives
  the same result) make the same calls, and so print the same lines in the same order, for
  every number of cycles observed. Whatever else the responses carry may differ.\<close>

theorem same_results_same_output:
  assumes "\<forall>k<n * length urls.
      same_outcome dec (net1 k (urls ! (k mod length urls))) (net2 k (urls ! (k mod length urls)))"
  shows "program dec net1 n = program dec net2 n
     \<and> output_lines (fst (program dec net1 n)) = output_lines (fst (program dec net2 n))"
proof -
  have "\<forall>j<n * length urls. same_outcome dec (net1 (0 + j) (urls ! (j mod length urls)))
        (net2 (0 + j) (urls ! (j mod length urls)))"
    using assms by simp
  then have "while_true dec net1 n 0 = while_true dec net2 n 0"
    by (rule while_true_same)
  then show ?thesis by (simp add: program_def)
qed

theorem same_results_same_output_witness:
  "\<not> (\<exists>k. k < 2 * length urls \<and> \<not> same_outcome demo_decoder
        (scenario_network k (urls ! (k mod length urls)))
        (dated_network k (urls ! (k mod length urls))))
   \<and> scenario_network 0 (urls ! 0) \<noteq> dated_network 0 (urls ! 0)
   \<and> content (the (scenario_network 1 (urls ! 1))) \<noteq> content (the (dated_network 1 (urls ! 1)))
   \<and> program demo_decoder scenario_network 2 = program demo_decoder dated_network 2
   \<and> output_lines (fst (program demo_decoder scenario_network 2)) =
       output_lines (fst (program demo_decoder dated_network 2))"
proof -
  have b: "scenario_network 0 (urls ! 0) \<noteq> dated_network 0 (urls ! 0)"
    by (simp add: scenario_network_def dated_network_def ok_response_def)
  have c: "content (the (scenario_network 1 (urls ! 1))) \<noteq>
      content (the (dated_network 1 (urls ! 1)))"
    by (simp add: scenario_network_def dated_network_def error_response_def)
  from same_results_same_output [where dec = demo_decoder and ?net1.0 = scenario_network
      and ?net2.0 = dated_network and n = 2] scenario_dated_same b c
  show ?thesis
    by blast
qed

text \<open>C9. If, after any number of completed cycles, the pass has handled the URLs before
  position \<open>i\<close> and an exception (a transport error of the GET, or a JSON decode error)
  is raised while handling the URL at position \<open>i\<close>, then the run ends there, however
  long it is observed: the calls for that URL contain no output line, the output printed
  before it stays printed, the requests of the cycle are those for the URLs up to position
  \<open>i\<close> and no more, and the cycle has no \<^verbatim>\<open>time.sleep\<close> call.\<close>

theorem exception_aborts_mid_cycle:
  assumes before: "program dec net n = (T, Running)"
    and i: "i < length urls"
    and earlier: "for_loop dec net (n * length urls) (take i urls) = (t0, Running)"
    and raised: "loop_body dec (urls ! i) (net (n * length urls + i) (urls ! i)) = (ti, Aborted e)"
  shows "(\<forall>m. program dec net (Suc n + m) = (T @ t0 @ ti, Aborted e))
     \<and> output_lines ti = []
     \<and> output_lines (T @ t0 @ ti) = output_lines T @ output_lines t0
     \<and> length (output_lines t0) = i
     \<and> requests_of (t0 @ ti) = take (Suc i) urls
     \<and> sleeps_of (t0 @ ti) = []
     \<and> (ti = [Requests_get (urls ! i)] \<and> e = RequestException
        \<or> ti = [Requests_get (urls ! i), Response_json] \<and> e = JSONDecodeError)"
proof -
  have p: "\<forall>m. program dec net (Suc n + m) = (T @ t0 @ ti, Aborted e)"
    using program_aborts_at [OF assms] by blast
  from loop_body_aborted [OF raised]
  have b: "requests_of ti = [urls ! i]" "output_lines ti = []" "sleeps_of ti = []"
    by simp_all
  from for_loop_running [OF earlier] i
  have a: "requests_of t0 = take i urls" "length (output_lines t0) = i" "sleeps_of t0 = []"
    by simp_all
  have r: "requests_of (t0 @ ti) = take (Suc i) urls"
    using a b i by (simp add: requests_of_append take_Suc_conv_app_nth)
  have k: "ti = [Requests_get (urls ! i)] \<and> e = RequestException
        \<or> ti = [Requests_get (urls ! i), Response_json] \<and> e = JSONDecodeError"
    by (rule loop_body_cases [where out = "net (n * length urls + i) (urls ! i)"
          and dec = dec and url = "urls ! i"])
      (use raised in auto)
  from p a b r k show ?thesis
    by (simp add: output_lines_append sleeps_of_append)
qed

theorem exception_aborts_mid_cycle_witness:
  "program demo_decoder garbled_network 0 = ([], Running)
   \<and> 1 < length urls
   \<and> for_loop demo_decoder garbled_network (0 * length urls) (take 1 urls) =
       ([Requests_get (urls ! 0), Print (Message (failure_message (urls ! 0) 500))], Running)
   \<and> loop_body demo_decoder (urls ! 1) (garbled_network (0 * length urls + 1) (urls ! 1)) =
       ([Requests_get (urls ! 1), Response_json], Aborted JSONDecodeError)
   \<and> (\<forall>m. program demo_decoder garbled_network (Suc 0 + m) =
       ([] @ [Requests_get (urls ! 0), Print (Message (failure_message (urls ! 0) 500))]
          @ [Requests_get (urls ! 1), Response_json], Aborted JSONDecodeError))"
proof -
  have a: "program demo_decoder garbled_network 0 = ([], Running)"
    by (simp add: program_def)
  have b: "1 < length urls"
    by (simp add: urls_def)
  from exception_aborts_mid_cycle [OF a b garbled_ok garbled_raise] a b garbled_ok garbled_raise
  show ?thesis by blast
qed

text \<open>C10. The first call of the program is the GET request for the first URL: nothing comes
  before it, in particular no sleep. Every \<^verbatim>\<open>time.sleep\<close> call of a run has the argument
  240 and comes after a full pass: the calls before it contain a request for every URL of
  the list, in order, and at least one output line per URL.\<close>

theorem no_sleep_before_first_pass:
  "(\<exists>t'. fst (program dec net (Suc n)) = Requests_get (hd urls) # t')
   \<and> (\<forall>t d rest. fst (program dec net n) = t @ Time_sleep d # rest \<longrightarrow>
        d = 240 \<and> take (length urls) (requests_of t) = urls
        \<and> length urls \<le> length (output_lines t))"
proof (intro conjI allI impI)
  show "\<exists>t'. fst (program dec net (Suc n)) = Requests_get (hd urls) # t'"
    using while_true_head [of dec net n 0] by (simp add: program_def)
  fix t d rest
  assume eq: "fst (program dec net n) = t @ Time_sleep d # rest"
  have "d \<in> set (sleeps_of (fst (while_true dec net n 0)))"
    using eq by (simp add: program_def sleeps_of_append)
  then show "d = 240" using while_true_sleeps [of dec net n 0] by auto
  have "take (length urls) (requests_of t) = urls \<and> length urls \<le> length (output_lines t)"
  proof (cases n)
    case 0
    with eq show ?thesis by (simp add: program_def)
  next
    case (Suc m)
    show ?thesis
    proof (cases "for_loop dec net 0 urls")
      case (Pair c s)
      show ?thesis
      proof (cases s)
        case Running
        from for_loop_running [of dec net 0 urls c] Pair Running
        have c: "requests_of c = urls" "length (output_lines c) = length urls" "sleeps_of c = []"
          by simp_all
        obtain T' s' where w: "while_true dec net m (length urls) = (T', s')"
          by (cases "while_true dec net m (length urls)")
        from eq Suc Pair Running w have "c @ Time_sleep 240 # T' = t @ Time_sleep d # rest"
          by (simp add: program_def)
        from first_sleep [OF c(3) this] obtain x where "t = c @ x" by blast
        with c show ?thesis
          by (simp add: requests_of_append output_lines_append)
      next
        case (Aborted e)
        from for_loop_aborted [of dec net 0 urls c e] Pair Aborted
        have "sleeps_of c = []" by simp
        moreover from eq Suc Pair Aborted have "c = t @ Time_sleep d # rest"
          by (simp add: program_def)
        ultimately show ?thesis by (simp add: sleeps_of_append)
      qed
    qed
  qed
  then show "take (length urls) (requests_of t) = urls"
    and "length urls \<le> length (output_lines t)" by simp_all
qed

theorem no_sleep_before_first_pass_witness:
  "fst (program demo_decoder scenario_network (Suc 0)) =
     [Requests_get (urls ! 0), Response_json, Print (Decoded x_value),
      Requests_get (urls ! 1), Print (Message (failure_message (urls ! 1) 500))]
       @ Time_sleep 240 # []
   \<and> take (length urls) (requests_of
       [Requests_get (urls ! 0), Response_json, Print (Decoded x_value),
        Requests_get (urls ! 1), Print (Message (failure_message (urls ! 1) 500)) :: json event])
       = urls
   \<and> (\<exists>t'. fst (program demo_decoder scenario_network (Suc 0)) = Requests_get (hd urls) # t')"
proof -
  have a: "fst (program demo_decoder scenario_network (Suc 0)) =
     [Requests_get (urls ! 0), Response_json, Print (Decoded x_value),
      Requests_get (urls ! 1), Print (Message (failure_message (urls ! 1) 500))]
       @ Time_sleep 240 # []"
    by (simp add: scenario_program_1)
  from no_sleep_before_first_pass [of demo_decoder scenario_network 0]
  have h: "\<exists>t'. fst (program demo_decoder scenario_network (Suc 0)) = Requests_get (hd urls) # t'"
    by blast
  from no_sleep_before_first_pass [of demo_decoder scenario_network "Suc 0"] a
  have "take (length urls) (requests_of
       [Requests_get (urls ! 0), Response_json, Print (Decoded x_value),
        Requests_get (urls ! 1), Print (Message (failure_message (urls ! 1) 500)) :: json event])
       = urls"
    by blast
  with a h show ?thesis by blast
qed

end
